theory Spec2Isabelle
  imports Main
begin

section \<open>The orchestrator client and the clock, as the progress monitor sees them\<close>

text \<open>
  \<^verbatim>\<open>bosh.go\<close> talks to three operations of the director client
  (\<^verbatim>\<open>FindDeployment\<close>, \<^verbatim>\<open>VMInfos\<close> on the deployment handle, \<^verbatim>\<open>Releases\<close>),
  reads the clock (\<^verbatim>\<open>time.Now\<close>) and sleeps. The client is an interface of an external
  library, so its answers are a parameter of the model: an environment scripts the answer
  of the n-th call of every operation, and the state that the code threads counts the calls
  made so far. Every call of the source is one call of the model, in the source's order.

  A Go call returns the pair \<^verbatim>\<open>(value, error)\<close>. The code reads the value of
  \<^verbatim>\<open>FindDeployment\<close> and of \<^verbatim>\<open>Releases\<close> only where the error is \<^verbatim>\<open>nil\<close> (the handle
  beside an error is overwritten by the next lookup, the releases beside an error are out
  of scope), so their answers are sums: \<open>Inl\<close> carries the error, \<open>Inr\<close> the value.
  The list of \<^verbatim>\<open>VMInfos\<close> is read by \<^verbatim>\<open>GetVMProgress\<close> after a failure too (line 142), so
  its answer is the pair as it is: the list and the error, \<open>None\<close> for \<^verbatim>\<open>nil\<close>.
\<close>

datatype error = Error string

datatype Deployment = DeploymentHandle string

record VMInfo =
  ProcessState :: string
  Processes :: "string list"

type_synonym Release = string

record Env =
  dir_FindDeployment :: "nat \<Rightarrow> string \<Rightarrow> error + Deployment"
  dep_VMInfos :: "Deployment \<Rightarrow> nat \<Rightarrow> VMInfo list \<times> error option"
  dir_Releases :: "nat \<Rightarrow> error + Release list"
  time_Now :: "nat \<Rightarrow> int"
  VMProgressInterval :: int

record Calls =
  n_FindDeployment :: nat
  n_VMInfos :: nat
  n_Releases :: nat
  n_Now :: nat
  slept :: int

definition FindDeployment :: "Env \<Rightarrow> string \<Rightarrow> Calls \<Rightarrow> (error + Deployment) \<times> Calls" where
  "FindDeployment env name c =
     (dir_FindDeployment env (n_FindDeployment c) name,
      c\<lparr>n_FindDeployment := Suc (n_FindDeployment c)\<rparr>)"

definition VMInfos ::
  "Env \<Rightarrow> Deployment \<Rightarrow> Calls \<Rightarrow> (VMInfo list \<times> error option) \<times> Calls" where
  "VMInfos env dep c =
     (dep_VMInfos env dep (n_VMInfos c), c\<lparr>n_VMInfos := Suc (n_VMInfos c)\<rparr>)"

definition Releases_call :: "Env \<Rightarrow> Calls \<Rightarrow> (error + Release list) \<times> Calls" where
  "Releases_call env c = (dir_Releases env (n_Releases c), c\<lparr>n_Releases := Suc (n_Releases c)\<rparr>)"

definition Now :: "Env \<Rightarrow> Calls \<Rightarrow> int \<times> Calls" where
  "Now env c = (time_Now env (n_Now c), c\<lparr>n_Now := Suc (n_Now c)\<rparr>)"

definition Sleep :: "Env \<Rightarrow> Calls \<Rightarrow> Calls" where
  "Sleep env c = c\<lparr>slept := slept c + VMProgressInterval env\<rparr>"

definition len :: "'a list \<Rightarrow> int" where
  "len xs = int (length xs)"

text \<open>
  \<^verbatim>\<open>time.Time.Sub\<close>: the difference in nanoseconds, held at the largest and the smallest
  \<^verbatim>\<open>Duration\<close> (a signed 64-bit count).
\<close>

definition maxDuration :: int where
  "maxDuration = 2 ^ 63 - 1"

definition minDuration :: int where
  "minDuration = - (2 ^ 63)"

definition time_Sub :: "int \<Rightarrow> int \<Rightarrow> int" where
  "time_Sub t u =
     (let d = t - u
      in if d > maxDuration then maxDuration else if d < minDuration then minDuration else d)"

section \<open>Progress snapshots\<close>

definition UploadingReleases :: string where
  "UploadingReleases = ''uploading-releases''"

definition Deploying :: string where
  "Deploying = ''deploying''"

definition RunningErrand :: string where
  "RunningErrand = ''running-errand''"

record VMProgress =
  State :: string
  Releases :: int
  Total :: int
  Done :: int
  Duration :: int

text \<open>
  The busy-poll that both \<^verbatim>\<open>VMProgress\<close> and \<^verbatim>\<open>GetVMProgress\<close> open with:
  \<^verbatim>\<open>for { dep, err = b.dir.FindDeployment(deploymentName); if err == nil { break } }\<close>.
  It has no bound, so it is a partial function: \<open>None\<close> is the loop that never leaves.
\<close>

partial_function (option) FindDeployment_loop ::
  "Env \<Rightarrow> string \<Rightarrow> Calls \<Rightarrow> (Deployment \<times> Calls) option" where
  "FindDeployment_loop env deploymentName c =
     (case fst (FindDeployment env deploymentName c) of
        Inl err \<Rightarrow> FindDeployment_loop env deploymentName (snd (FindDeployment env deploymentName c))
      | Inr dep \<Rightarrow> Some (dep, snd (FindDeployment env deploymentName c)))"

text \<open>
  The counting loop over the instances,
  \<^verbatim>\<open>for _, v := range vmInfos { if v.ProcessState == "running" && len(v.Processes) > 0 { numDone++ } }\<close>,
  with the counter as an accumulator.
\<close>

fun numDone_loop :: "VMInfo list \<Rightarrow> int \<Rightarrow> int" where
  "numDone_loop [] numDone = numDone"
| "numDone_loop (v # vs) numDone =
     numDone_loop vs
       (if ProcessState v = ''running'' \<and> len (Processes v) > 0 then numDone + 1 else numDone)"

section \<open>The one-shot query\<close>

text \<open>Lines 142 to 150 of \<^verbatim>\<open>GetVMProgress\<close>: the count and the \<^verbatim>\<open>deploying\<close> snapshot.\<close>

definition deploying_snapshot :: "Env \<Rightarrow> int \<Rightarrow> VMInfo list \<Rightarrow> Calls \<Rightarrow> VMProgress \<times> Calls" where
  "deploying_snapshot env start vmInfos c =
     (let total = len vmInfos;
          numDone = numDone_loop vmInfos 0;
          (t, c') = Now env c
      in (\<lparr>State = Deploying, Releases = 0, Total = total, Done = numDone,
           Duration = time_Sub t start\<rparr>, c'))"

definition GetVMProgress ::
  "Env \<Rightarrow> int \<Rightarrow> string \<Rightarrow> bool \<Rightarrow> Calls \<Rightarrow> (VMProgress \<times> Calls) option" where
  "GetVMProgress env start deploymentName isErrand c =
     (if isErrand then
        (let (t, c') = Now env c
         in Some (\<lparr>State = RunningErrand, Releases = 0, Total = 0, Done = 0,
                   Duration = time_Sub t start\<rparr>, c'))
      else
        (case FindDeployment_loop env deploymentName c of
           None \<Rightarrow> None
         | Some (dep, c1) \<Rightarrow>
             (let ((vmInfos, err), c2) = VMInfos env dep c1
              in if err \<noteq> None \<or> len vmInfos = 0 then
                   (let (rr, c3) = Releases_call env c2
                    in case rr of
                         Inr rels \<Rightarrow>
                           (let (t, c4) = Now env c3
                            in Some (\<lparr>State = UploadingReleases, Releases = len rels, Total = 0,
                                      Done = 0, Duration = time_Sub t start\<rparr>, c4))
                       | Inl err \<Rightarrow> Some (deploying_snapshot env start vmInfos c3))
                 else Some (deploying_snapshot env start vmInfos c2))))"

section \<open>The streaming query\<close>

text \<open>
  \<^verbatim>\<open>VMProgress\<close> reads the clock, runs the busy-poll in the calling context, makes the
  channel and starts the goroutine. The goroutine is a producer: its captured variables
  (\<^verbatim>\<open>dep\<close>, \<^verbatim>\<open>start\<close>, \<^verbatim>\<open>total\<close>) and whether it has returned. What it does to the channel
  is the list of events of each pass of its loop, in order: a send completes when the
  consumer has taken the value before it (the buffer holds one).
\<close>

datatype event = Send VMProgress | Close

record Producer =
  p_dep :: Deployment
  p_start :: int
  p_total :: int
  p_calls :: Calls
  p_returned :: bool

definition VMProgress :: "Env \<Rightarrow> string \<Rightarrow> Calls \<Rightarrow> Producer option" where
  "VMProgress env deploymentName c =
     (let (start, c1) = Now env c
      in case FindDeployment_loop env deploymentName c1 of
           None \<Rightarrow> None
         | Some (dep, c2) \<Rightarrow>
             Some \<lparr>p_dep = dep, p_start = start, p_total = 0, p_calls = c2, p_returned = False\<rparr>)"

text \<open>One pass of the goroutine's loop (lines 85 to 113).\<close>

definition tick :: "Env \<Rightarrow> Producer \<Rightarrow> event list \<times> Producer" where
  "tick env p =
     (let c0 = Sleep env (p_calls p);
          ((vmInfos, err), c1) = VMInfos env (p_dep p) c0
      in if err \<noteq> None \<or> len vmInfos = 0 then
           (if p_total p = 0 then
              (let (rr, c2) = Releases_call env c1
               in case rr of
                    Inr rels \<Rightarrow>
                      (let (t, c3) = Now env c2
                       in ([Send \<lparr>State = [], Releases = len rels, Total = 0, Done = 0,
                                   Duration = time_Sub t (p_start p)\<rparr>],
                           p\<lparr>p_calls := c3\<rparr>))
                  | Inl err \<Rightarrow> ([], p\<lparr>p_calls := c2\<rparr>))
            else ([], p\<lparr>p_calls := c1\<rparr>))
         else
           (let total = len vmInfos;
                numDone = numDone_loop vmInfos 0;
                (t, c2) = Now env c1;
                snapshot = \<lparr>State = [], Releases = 0, Total = total, Done = numDone,
                            Duration = time_Sub t (p_start p)\<rparr>
            in if numDone \<ge> len vmInfos
               then ([Send snapshot, Close], p\<lparr>p_total := total, p_calls := c2, p_returned := True\<rparr>)
               else ([Send snapshot], p\<lparr>p_total := total, p_calls := c2\<rparr>)))"

text \<open>
  The first \<open>n\<close> passes of the loop: the events sent so far and the producer after them.
  A producer that has returned makes no further pass.
\<close>

fun run :: "Env \<Rightarrow> nat \<Rightarrow> Producer \<Rightarrow> event list \<times> Producer" where
  "run env 0 p = ([], p)"
| "run env (Suc n) p =
     (if p_returned p then ([], p)
      else (let (evs, p') = tick env p;
                (evs', p'') = run env n p'
            in (evs @ evs', p'')))"

section \<open>The counts and the convergence condition in the specification's words\<close>

text \<open>
  An instance counts as done when its process state equals \<^verbatim>\<open>running\<close> and its list of
  processes is not empty; a tick observes convergence when the instance list request
  succeeds with a list that is not empty and has at least as many done instances as
  instances.
\<close>

definition instance_done :: "VMInfo \<Rightarrow> bool" where
  "instance_done v = (ProcessState v = ''running'' \<and> Processes v \<noteq> [])"

definition count_done :: "VMInfo list \<Rightarrow> nat" where
  "count_done vs = length (filter instance_done vs)"

definition observes_convergence :: "VMInfo list \<times> error option \<Rightarrow> bool" where
  "observes_convergence r =
     (snd r = None \<and> fst r \<noteq> [] \<and> count_done (fst r) \<ge> length (fst r))"

text \<open>The instance list request fails or returns an empty list.\<close>

definition no_instances :: "VMInfo list \<times> error option \<Rightarrow> bool" where
  "no_instances r = (snd r \<noteq> None \<or> fst r = [])"

section \<open>The virtual-machine supervisor\<close>

text \<open>
  Modelled from the spec: the supervisor's \<^verbatim>\<open>Start\<close> and the hypervisor command
  \<^verbatim>\<open>start(name)\<close> it wraps; the repository's \<^verbatim>\<open>hypervisor\<close> package is known here by its
  test alone. The hypervisor owns the runtime state of every named machine (absent, off or
  running) and records the commands it receives; \<^verbatim>\<open>start\<close> on a name that does not exist
  answers with a distinguishable not-found condition.
\<close>

datatype vm_runtime = off | running

datatype hv_command = cmd_start string

datatype hv_condition = not_found

datatype supervisor_error = NotFoundError string | CreationError string

record Hypervisor =
  vms :: "string \<rightharpoonup> vm_runtime"
  issued :: "hv_command list"

text \<open>Modelled from the spec: the hypervisor command \<^verbatim>\<open>start(name) -> error\<close>.\<close>

definition hv_start :: "string \<Rightarrow> Hypervisor \<Rightarrow> (hv_condition + unit) \<times> Hypervisor" where
  "hv_start name hv =
     (case vms hv name of
        None \<Rightarrow> (Inl not_found, hv\<lparr>issued := issued hv @ [cmd_start name]\<rparr>)
      | Some s \<Rightarrow>
          (Inr (), hv\<lparr>vms := (vms hv)(name \<mapsto> running), issued := issued hv @ [cmd_start name]\<rparr>))"

text \<open>
  Modelled from the spec: \<^verbatim>\<open>Start(name)\<close> requires the machine to exist and fails with
  \<^verbatim>\<open>NotFoundError\<close> and the message \<^verbatim>\<open>hyperv vm with name <name> does not exist\<close> when it
  does not; it succeeds on a machine that is already running and starts one that is off.
\<close>

definition Start :: "string \<Rightarrow> Hypervisor \<Rightarrow> (supervisor_error + unit) \<times> Hypervisor" where
  "Start name hv =
     (case hv_start name hv of
        (Inl not_found, hv') \<Rightarrow>
          (Inl (NotFoundError (''hyperv vm with name '' @ name @ '' does not exist'')), hv')
      | (Inr u, hv') \<Rightarrow> (Inr (), hv'))"

section \<open>Concrete scenarios\<close>

definition calls0 :: Calls where
  "calls0 = \<lparr>n_FindDeployment = 0, n_VMInfos = 0, n_Releases = 0, n_Now = 0, slept = 0\<rparr>"

definition vm_running :: VMInfo where
  "vm_running = \<lparr>ProcessState = ''running'', Processes = [''garden'']\<rparr>"

definition vm_starting :: VMInfo where
  "vm_starting = \<lparr>ProcessState = ''starting'', Processes = []\<rparr>"

text \<open>
  A deployment that becomes visible at the third lookup; its instance list fails, is empty,
  holds three instances of which two are done, and then two that are both done. The
  release catalog fails once and then lists two releases.
\<close>

definition env_scenario :: Env where
  "env_scenario =
     \<lparr>dir_FindDeployment =
        (\<lambda>n name. if n < 2 then Inl (Error ''deployment not found'') else Inr (DeploymentHandle name)),
      dep_VMInfos =
        (\<lambda>dep n. if n = 0 then ([], Some (Error ''timeout''))
                 else if n = 1 then ([], None)
                 else if n = 2 then ([vm_running, vm_running, vm_starting], None)
                 else ([vm_running, vm_running], None)),
      dir_Releases = (\<lambda>n. if n = 0 then Inl (Error ''timeout'') else Inr [''cf'', ''cf-mysql'']),
      time_Now = (\<lambda>n. 1000 * int n),
      VMProgressInterval = 1000000000\<rparr>"

text \<open>A deployment with no instances and a release catalog that is fetchable and empty.\<close>

definition env_empty :: Env where
  "env_empty =
     \<lparr>dir_FindDeployment = (\<lambda>n name. Inr (DeploymentHandle name)),
      dep_VMInfos = (\<lambda>dep n. ([], None)),
      dir_Releases = (\<lambda>n. Inr []),
      time_Now = (\<lambda>n. 1000 * int n),
      VMProgressInterval = 1000000000\<rparr>"

text \<open>
  A director whose instance list request fails and hands back one running instance beside
  the error, and whose release catalog fails.
\<close>

definition env_partial :: Env where
  "env_partial =
     \<lparr>dir_FindDeployment = (\<lambda>n name. Inr (DeploymentHandle name)),
      dep_VMInfos = (\<lambda>dep n. ([vm_running], Some (Error ''timeout''))),
      dir_Releases = (\<lambda>n. Inl (Error ''timeout'')),
      time_Now = (\<lambda>n. 1000 * int n),
      VMProgressInterval = 1000000000\<rparr>"

text \<open>A director on which the deployment never becomes visible.\<close>

definition env_never :: Env where
  "env_never =
     \<lparr>dir_FindDeployment = (\<lambda>n name. Inl (Error ''deployment not found'')),
      dep_VMInfos = (\<lambda>dep n. ([], None)),
      dir_Releases = (\<lambda>n. Inr []),
      time_Now = (\<lambda>n. 1000 * int n),
      VMProgressInterval = 1000000000\<rparr>"

text \<open>A hypervisor that holds one machine, switched off.\<close>

definition hv_other :: Hypervisor where
  "hv_other = \<lparr>vms = [''other-vm'' \<mapsto> off], issued = []\<rparr>"

text \<open>The producer that \<^verbatim>\<open>VMProgress\<close> starts on the first scenario.\<close>

definition scenario_producer :: Producer where
  "scenario_producer =
     \<lparr>p_dep = DeploymentHandle ''cf'', p_start = 0, p_total = 0,
      p_calls = \<lparr>n_FindDeployment = 3, n_VMInfos = 0, n_Releases = 0, n_Now = 1, slept = 0\<rparr>,
      p_returned = False\<rparr>"

section \<open>The busy-poll\<close>

text \<open>
  The loop returns at the first lookup that succeeds, having made one call for every
  failure before it and one for the success.
\<close>

lemma FindDeployment_loop_first:
  "\<forall>j<k. isl (dir_FindDeployment env (n_FindDeployment c + j) name) \<Longrightarrow>
   dir_FindDeployment env (n_FindDeployment c + k) name = Inr dep \<Longrightarrow>
   FindDeployment_loop env name c = Some (dep, c\<lparr>n_FindDeployment := n_FindDeployment c + Suc k\<rparr>)"
proof (induction k arbitrary: c)
  case 0
  then show ?case
    by (subst FindDeployment_loop.simps) (simp add: FindDeployment_def)
next
  case (Suc k)
  let ?c' = "c\<lparr>n_FindDeployment := Suc (n_FindDeployment c)\<rparr>"
  from Suc.prems(1) have fails: "isl (dir_FindDeployment env (n_FindDeployment c) name)"
    by (metis add.right_neutral zero_less_Suc)
  have "\<forall>j<k. isl (dir_FindDeployment env (n_FindDeployment ?c' + j) name)"
  proof (intro allI impI)
    fix j assume "j < k"
    then have "Suc j < Suc k" by simp
    with Suc.prems(1) have "isl (dir_FindDeployment env (n_FindDeployment c + Suc j) name)" by blast
    then show "isl (dir_FindDeployment env (n_FindDeployment ?c' + j) name)" by simp
  qed
  moreover from Suc.prems(2) have "dir_FindDeployment env (n_FindDeployment ?c' + k) name = Inr dep"
    by simp
  ultimately have "FindDeployment_loop env name ?c' =
      Some (dep, ?c'\<lparr>n_FindDeployment := n_FindDeployment ?c' + Suc k\<rparr>)"
    by (rule Suc.IH)
  with fails show ?case
    by (subst FindDeployment_loop.simps) (auto simp: FindDeployment_def isl_def)
qed

text \<open>Conversely, a loop that returns has found its first success.\<close>

lemma FindDeployment_loop_Some_aux:
  assumes "FindDeployment_loop env name c = Some y"
  shows "\<exists>k. (\<forall>j<k. isl (dir_FindDeployment env (n_FindDeployment c + j) name)) \<and>
       dir_FindDeployment env (n_FindDeployment c + k) name = Inr (fst y) \<and>
       snd y = c\<lparr>n_FindDeployment := n_FindDeployment c + Suc k\<rparr>"
  using assms
proof (induct rule: FindDeployment_loop.raw_induct [rotated 1, consumes 1, case_names step])
  case (step loop env name c y)
  show ?case
  proof (cases "dir_FindDeployment env (n_FindDeployment c) name")
    case (Inl e)
    let ?c1 = "c\<lparr>n_FindDeployment := Suc (n_FindDeployment c)\<rparr>"
    from step(2) Inl have "loop env name ?c1 = Some y"
      by (simp add: FindDeployment_def)
    from step(1)[OF this] obtain k where
      k: "(\<forall>j<k. isl (dir_FindDeployment env (n_FindDeployment ?c1 + j) name)) \<and>
          dir_FindDeployment env (n_FindDeployment ?c1 + k) name = Inr (fst y) \<and>
          snd y = ?c1\<lparr>n_FindDeployment := n_FindDeployment ?c1 + Suc k\<rparr>" ..
    note k1 = k[THEN conjunct1] and k2 = k[THEN conjunct2, THEN conjunct1]
      and k3 = k[THEN conjunct2, THEN conjunct2]
    have "\<forall>j<Suc k. isl (dir_FindDeployment env (n_FindDeployment c + j) name)"
    proof (intro allI impI)
      fix j assume j: "j < Suc k"
      show "isl (dir_FindDeployment env (n_FindDeployment c + j) name)"
      proof (cases j)
        case 0
        with Inl show ?thesis by simp
      next
        case (Suc i)
        with j have "i < k" by simp
        with k1 have "isl (dir_FindDeployment env (n_FindDeployment ?c1 + i) name)" by blast
        with Suc show ?thesis by simp
      qed
    qed
    moreover from k2 have "dir_FindDeployment env (n_FindDeployment c + Suc k) name = Inr (fst y)"
      by simp
    moreover from k3 have "snd y = c\<lparr>n_FindDeployment := n_FindDeployment c + Suc (Suc k)\<rparr>"
      by simp
    ultimately show ?thesis by blast
  next
    case (Inr d)
    with step(2) have "y = (d, c\<lparr>n_FindDeployment := Suc (n_FindDeployment c)\<rparr>)"
      by (simp add: FindDeployment_def)
    with Inr have "(\<forall>j<0. isl (dir_FindDeployment env (n_FindDeployment c + j) name)) \<and>
       dir_FindDeployment env (n_FindDeployment c + 0) name = Inr (fst y) \<and>
       snd y = c\<lparr>n_FindDeployment := n_FindDeployment c + Suc 0\<rparr>" by simp
    then show ?thesis by blast
  qed
qed

lemma FindDeployment_loop_Some:
  "FindDeployment_loop env name c = Some (dep, c') \<Longrightarrow>
   \<exists>k. (\<forall>j<k. isl (dir_FindDeployment env (n_FindDeployment c + j) name)) \<and>
       dir_FindDeployment env (n_FindDeployment c + k) name = Inr dep \<and>
       c' = c\<lparr>n_FindDeployment := n_FindDeployment c + Suc k\<rparr>"
  using FindDeployment_loop_Some_aux [of env name c "(dep, c')"] by simp

text \<open>On a director that never knows the deployment the loop does not return.\<close>

lemma FindDeployment_loop_None:
  "\<forall>k. isl (dir_FindDeployment env (n_FindDeployment c + k) name) \<Longrightarrow>
   FindDeployment_loop env name c = None"
proof (rule ccontr)
  assume all: "\<forall>k. isl (dir_FindDeployment env (n_FindDeployment c + k) name)"
  assume "FindDeployment_loop env name c \<noteq> None"
  then obtain dep c' where "FindDeployment_loop env name c = Some (dep, c')" by auto
  from FindDeployment_loop_Some[OF this] obtain k where
    "dir_FindDeployment env (n_FindDeployment c + k) name = Inr dep" by blast
  with all show False by (metis sum.disc(2))
qed

section \<open>The counting loop\<close>

lemma numDone_loop_acc:
  "numDone_loop vs n = n + int (count_done vs)"
  by (induction vs arbitrary: n) (simp_all add: count_done_def instance_done_def len_def)

lemma count_done_le: "count_done vs \<le> length vs"
  by (simp add: count_done_def)

lemma numDone_loop_le: "numDone_loop vs 0 \<le> len vs"
  by (simp add: numDone_loop_acc len_def count_done_le)

section \<open>The one-shot query: what it returns\<close>

text \<open>
  Once the busy-poll has found the deployment at its first successful lookup, the rest of
  \<^verbatim>\<open>GetVMProgress\<close> is a straight line.
\<close>

lemma GetVMProgress_resolved:
  assumes "\<forall>j<k. isl (dir_FindDeployment env (n_FindDeployment c + j) deploymentName)"
    and "dir_FindDeployment env (n_FindDeployment c + k) deploymentName = Inr dep"
  shows "GetVMProgress env start deploymentName False c =
     (let c1 = c\<lparr>n_FindDeployment := n_FindDeployment c + Suc k\<rparr>;
          ((vmInfos, err), c2) = VMInfos env dep c1
      in if err \<noteq> None \<or> len vmInfos = 0 then
           (let (rr, c3) = Releases_call env c2
            in case rr of
                 Inr rels \<Rightarrow>
                   (let (t, c4) = Now env c3
                    in Some (\<lparr>State = UploadingReleases, Releases = len rels, Total = 0,
                              Done = 0, Duration = time_Sub t start\<rparr>, c4))
               | Inl err \<Rightarrow> Some (deploying_snapshot env start vmInfos c3))
         else Some (deploying_snapshot env start vmInfos c2))"
  by (simp add: GetVMProgress_def FindDeployment_loop_first [OF assms])

text \<open>
  C1: when the deployment handle resolves (at lookup \<open>k\<close>, the first that succeeds) and
  the instance list request succeeds with a list that is not empty, \<^verbatim>\<open>GetVMProgress\<close> with
  \<^verbatim>\<open>isErrand\<close> false returns a \<^verbatim>\<open>deploying\<close> snapshot whose total is the number of
  instances and whose done is the number of instances with process state \<^verbatim>\<open>running\<close> and
  a list of processes that is not empty.
\<close>

theorem GetVMProgress_counts_instances:
  assumes "\<forall>j<k. isl (dir_FindDeployment env (n_FindDeployment c + j) deploymentName)"
    and "dir_FindDeployment env (n_FindDeployment c + k) deploymentName = Inr dep"
    and "dep_VMInfos env dep (n_VMInfos c) = (vmInfos, None)"
    and "vmInfos \<noteq> []"
  shows "GetVMProgress env start deploymentName False c =
     Some (\<lparr>State = ''deploying'', Releases = 0,
            Total = int (length vmInfos),
            Done = int (length (filter (\<lambda>v. ProcessState v = ''running'' \<and> Processes v \<noteq> []) vmInfos)),
            Duration = time_Sub (time_Now env (n_Now c)) start\<rparr>,
           c\<lparr>n_FindDeployment := n_FindDeployment c + Suc k,
             n_VMInfos := Suc (n_VMInfos c),
             n_Now := Suc (n_Now c)\<rparr>)"
proof -
  have cnt: "numDone_loop vmInfos 0 =
      int (length (filter (\<lambda>v. ProcessState v = ''running'' \<and> Processes v \<noteq> []) vmInfos))"
    by (simp add: numDone_loop_acc count_done_def instance_done_def [abs_def])
  from assms(3,4) show ?thesis
    by (simp add: GetVMProgress_resolved [OF assms(1,2)] VMInfos_def len_def
        deploying_snapshot_def Now_def Deploying_def cnt)
qed

text \<open>
  Three instances, two of them running with a process, seen after two failed lookups.
\<close>

theorem GetVMProgress_counts_instances_witness:
  "GetVMProgress env_scenario 500 ''cf'' False (calls0\<lparr>n_VMInfos := 2\<rparr>) =
     Some (\<lparr>State = ''deploying'', Releases = 0, Total = 3, Done = 2, Duration = - 500\<rparr>,
           \<lparr>n_FindDeployment = 3, n_VMInfos = 3, n_Releases = 0, n_Now = 1, slept = 0\<rparr>)"
  using GetVMProgress_counts_instances [of 2 env_scenario "calls0\<lparr>n_VMInfos := 2\<rparr>" "''cf''"
      "DeploymentHandle ''cf''" "[vm_running, vm_running, vm_starting]" 500]
  by (simp add: env_scenario_def calls0_def vm_running_def vm_starting_def time_Sub_def
      maxDuration_def minDuration_def)

text \<open>
  C7: with \<^verbatim>\<open>isErrand\<close> true the result is a \<^verbatim>\<open>running-errand\<close> snapshot that carries the
  elapsed duration alone (releases, total and done are zero), and the only call made is the
  reading of the clock: the counts of \<^verbatim>\<open>FindDeployment\<close>, instance list and release
  requests are those before the call.
\<close>

theorem GetVMProgress_errand:
  "GetVMProgress env start deploymentName True c =
     Some (\<lparr>State = ''running-errand'', Releases = 0, Total = 0, Done = 0,
            Duration = time_Sub (time_Now env (n_Now c)) start\<rparr>,
           c\<lparr>n_Now := Suc (n_Now c)\<rparr>)"
  by (simp add: GetVMProgress_def Now_def RunningErrand_def)

text \<open>
  An errand query on the director that never knows the deployment still returns.
\<close>

theorem GetVMProgress_errand_witness:
  "GetVMProgress env_never 250 ''cf'' True calls0 =
     Some (\<lparr>State = ''running-errand'', Releases = 0, Total = 0, Done = 0, Duration = - 250\<rparr>,
           \<lparr>n_FindDeployment = 0, n_VMInfos = 0, n_Releases = 0, n_Now = 1, slept = 0\<rparr>)"
  using GetVMProgress_errand [of env_never 250 "''cf''" calls0]
  by (simp add: env_never_def calls0_def time_Sub_def maxDuration_def minDuration_def)

text \<open>
  C4 as stated expects total and done zero whenever the instance list request fails and
  the release catalog query fails too. After the fall-through, lines 142 to 148 count the
  list that came back with the error: one running instance beside the error gives a
  \<^verbatim>\<open>deploying\<close> snapshot with total and done one.
\<close>

theorem GetVMProgress_falls_through_counterexample:
  "snd (dep_VMInfos env_partial (DeploymentHandle ''cf'') (n_VMInfos calls0)) \<noteq> None \<and>
   isl (dir_Releases env_partial (n_Releases calls0)) \<and>
   GetVMProgress env_partial 0 ''cf'' False calls0 =
     Some (\<lparr>State = ''deploying'', Releases = 0, Total = 1, Done = 1, Duration = 0\<rparr>,
           \<lparr>n_FindDeployment = 1, n_VMInfos = 1, n_Releases = 1, n_Now = 1, slept = 0\<rparr>)"
  using GetVMProgress_resolved [of 0 env_partial calls0 "''cf''" "DeploymentHandle ''cf''" 0]
  by (simp add: env_partial_def calls0_def vm_running_def VMInfos_def len_def Releases_call_def
      deploying_snapshot_def Now_def Deploying_def time_Sub_def maxDuration_def minDuration_def)

text \<open>
  C4, amended: when the instance list request fails or returns an empty list and the
  release catalog query fails too, \<^verbatim>\<open>GetVMProgress\<close> with \<^verbatim>\<open>isErrand\<close> false returns a
  \<^verbatim>\<open>deploying\<close> snapshot whose total is the length of the list that the instance list
  request returned and whose done is the number of its instances with process state
  \<^verbatim>\<open>running\<close> and a list of processes that is not empty; total and done are zero when
  that list is empty, as it is for an empty answer and for a failure that returns no list.
\<close>

theorem GetVMProgress_falls_through:
  assumes "\<forall>j<k. isl (dir_FindDeployment env (n_FindDeployment c + j) deploymentName)"
    and "dir_FindDeployment env (n_FindDeployment c + k) deploymentName = Inr dep"
    and "dep_VMInfos env dep (n_VMInfos c) = (vmInfos, err)"
    and "err \<noteq> None \<or> vmInfos = []"
    and "isl (dir_Releases env (n_Releases c))"
  shows "GetVMProgress env start deploymentName False c =
     Some (\<lparr>State = ''deploying'', Releases = 0,
            Total = int (length vmInfos),
            Done = int (length (filter (\<lambda>v. ProcessState v = ''running'' \<and> Processes v \<noteq> []) vmInfos)),
            Duration = time_Sub (time_Now env (n_Now c)) start\<rparr>,
           c\<lparr>n_FindDeployment := n_FindDeployment c + Suc k,
             n_VMInfos := Suc (n_VMInfos c),
             n_Releases := Suc (n_Releases c),
             n_Now := Suc (n_Now c)\<rparr>) \<and>
    (vmInfos = [] \<longrightarrow>
       GetVMProgress env start deploymentName False c =
         Some (\<lparr>State = ''deploying'', Releases = 0, Total = 0, Done = 0,
                Duration = time_Sub (time_Now env (n_Now c)) start\<rparr>,
               c\<lparr>n_FindDeployment := n_FindDeployment c + Suc k,
                 n_VMInfos := Suc (n_VMInfos c),
                 n_Releases := Suc (n_Releases c),
                 n_Now := Suc (n_Now c)\<rparr>))"
proof -
  have cnt: "numDone_loop vmInfos 0 =
      int (length (filter (\<lambda>v. ProcessState v = ''running'' \<and> Processes v \<noteq> []) vmInfos))"
    by (simp add: numDone_loop_acc count_done_def instance_done_def [abs_def])
  from assms(5) obtain e where e: "dir_Releases env (n_Releases c) = Inl e"
    by (cases "dir_Releases env (n_Releases c)") simp_all
  have general: "GetVMProgress env start deploymentName False c =
     Some (\<lparr>State = ''deploying'', Releases = 0,
            Total = int (length vmInfos),
            Done = int (length (filter (\<lambda>v. ProcessState v = ''running'' \<and> Processes v \<noteq> []) vmInfos)),
            Duration = time_Sub (time_Now env (n_Now c)) start\<rparr>,
           c\<lparr>n_FindDeployment := n_FindDeployment c + Suc k,
             n_VMInfos := Suc (n_VMInfos c),
             n_Releases := Suc (n_Releases c),
             n_Now := Suc (n_Now c)\<rparr>)"
    using assms(3,4) e
    by (auto simp add: GetVMProgress_resolved [OF assms(1,2)] VMInfos_def len_def
        deploying_snapshot_def Now_def Deploying_def Releases_call_def cnt)
  then show ?thesis by simp
qed

text \<open>
  The failure that returns no list gives zero counts; the failure that returns one running
  instance counts it.
\<close>

theorem GetVMProgress_falls_through_witness:
  "GetVMProgress env_scenario 0 ''cf'' False calls0 =
     Some (\<lparr>State = ''deploying'', Releases = 0, Total = 0, Done = 0, Duration = 0\<rparr>,
           \<lparr>n_FindDeployment = 3, n_VMInfos = 1, n_Releases = 1, n_Now = 1, slept = 0\<rparr>) \<and>
   GetVMProgress env_partial 0 ''cf'' False calls0 =
     Some (\<lparr>State = ''deploying'', Releases = 0, Total = 1, Done = 1, Duration = 0\<rparr>,
           \<lparr>n_FindDeployment = 1, n_VMInfos = 1, n_Releases = 1, n_Now = 1, slept = 0\<rparr>)"
proof -
  have a: "GetVMProgress env_scenario 0 ''cf'' False calls0 =
     Some (\<lparr>State = ''deploying'', Releases = 0, Total = 0, Done = 0, Duration = 0\<rparr>,
           \<lparr>n_FindDeployment = 3, n_VMInfos = 1, n_Releases = 1, n_Now = 1, slept = 0\<rparr>)"
    using GetVMProgress_falls_through [of 2 env_scenario calls0 "''cf''" "DeploymentHandle ''cf''"
        "[]" "Some (Error ''timeout'')" 0]
    by (simp add: env_scenario_def calls0_def time_Sub_def maxDuration_def minDuration_def)
  have b: "GetVMProgress env_partial 0 ''cf'' False calls0 =
     Some (\<lparr>State = ''deploying'', Releases = 0, Total = 1, Done = 1, Duration = 0\<rparr>,
           \<lparr>n_FindDeployment = 1, n_VMInfos = 1, n_Releases = 1, n_Now = 1, slept = 0\<rparr>)"
    using GetVMProgress_falls_through [of 0 env_partial calls0 "''cf''" "DeploymentHandle ''cf''"
        "[vm_running]" "Some (Error ''timeout'')" 0]
    by (simp add: env_partial_def calls0_def vm_running_def time_Sub_def maxDuration_def
        minDuration_def)
  from a b show ?thesis by simp
qed

text \<open>
  C3 as stated expects a \<^verbatim>\<open>deploying\<close> snapshot for a deployment without instances whose
  release catalog is fetchable and empty. The release query succeeds, so the function
  returns at line 138 with the \<^verbatim>\<open>uploading-releases\<close> tag.
\<close>

theorem GetVMProgress_empty_catalog_counterexample:
  "map_option (State \<circ> fst) (GetVMProgress env_empty 0 ''cf'' False calls0) =
     Some ''uploading-releases'' \<and>
   map_option (State \<circ> fst) (GetVMProgress env_empty 0 ''cf'' False calls0) \<noteq>
     Some ''deploying''"
proof -
  have "GetVMProgress env_empty 0 ''cf'' False calls0 =
     Some (\<lparr>State = ''uploading-releases'', Releases = 0, Total = 0, Done = 0, Duration = 0\<rparr>,
           \<lparr>n_FindDeployment = 1, n_VMInfos = 1, n_Releases = 1, n_Now = 1, slept = 0\<rparr>)"
    using GetVMProgress_resolved [of 0 env_empty calls0 "''cf''" "DeploymentHandle ''cf''" 0]
    by (simp add: env_empty_def calls0_def VMInfos_def len_def Releases_call_def
        Now_def UploadingReleases_def time_Sub_def maxDuration_def minDuration_def)
  then show ?thesis by simp
qed

text \<open>
  C3, amended: for a deployment whose instance list is empty and whose release catalog is
  fetchable and holds no release, \<^verbatim>\<open>GetVMProgress\<close> with \<^verbatim>\<open>isErrand\<close> false returns an
  \<^verbatim>\<open>uploading-releases\<close> snapshot with releases, total and done all zero.
\<close>

theorem GetVMProgress_empty_catalog:
  assumes "\<forall>j<k. isl (dir_FindDeployment env (n_FindDeployment c + j) deploymentName)"
    and "dir_FindDeployment env (n_FindDeployment c + k) deploymentName = Inr dep"
    and "dep_VMInfos env dep (n_VMInfos c) = ([], None)"
    and "dir_Releases env (n_Releases c) = Inr []"
  shows "GetVMProgress env start deploymentName False c =
     Some (\<lparr>State = ''uploading-releases'', Releases = 0, Total = 0, Done = 0,
            Duration = time_Sub (time_Now env (n_Now c)) start\<rparr>,
           c\<lparr>n_FindDeployment := n_FindDeployment c + Suc k,
             n_VMInfos := Suc (n_VMInfos c),
             n_Releases := Suc (n_Releases c),
             n_Now := Suc (n_Now c)\<rparr>)"
  using assms(3,4)
  by (simp add: GetVMProgress_resolved [OF assms(1,2)] VMInfos_def len_def
      Now_def UploadingReleases_def Releases_call_def)

text \<open>
  The empty deployment on a director that answers at once.
\<close>

theorem GetVMProgress_empty_catalog_witness:
  "GetVMProgress env_empty 0 ''cf'' False calls0 =
     Some (\<lparr>State = ''uploading-releases'', Releases = 0, Total = 0, Done = 0, Duration = 0\<rparr>,
           \<lparr>n_FindDeployment = 1, n_VMInfos = 1, n_Releases = 1, n_Now = 1, slept = 0\<rparr>)"
  using GetVMProgress_empty_catalog [of 0 env_empty calls0 "''cf''" "DeploymentHandle ''cf''" 0]
  by (simp add: env_empty_def calls0_def time_Sub_def maxDuration_def minDuration_def)

section \<open>The streaming query: one pass of the loop\<close>

text \<open>
  A pass either sees no instances (a failed request or an empty list) or a list of
  instances; the two lemmas give the events and the producer after the pass in each case.
\<close>

lemma tick_no_instances:
  assumes "no_instances (dep_VMInfos env (p_dep p) (n_VMInfos (p_calls p)))"
  shows "tick env p =
     (if p_total p = 0 then
        (case dir_Releases env (n_Releases (p_calls p)) of
           Inr rels \<Rightarrow>
             ([Send \<lparr>State = [], Releases = int (length rels), Total = 0, Done = 0,
                     Duration = time_Sub (time_Now env (n_Now (p_calls p))) (p_start p)\<rparr>],
              p\<lparr>p_calls := (p_calls p)\<lparr>slept := slept (p_calls p) + VMProgressInterval env,
                                       n_VMInfos := Suc (n_VMInfos (p_calls p)),
                                       n_Releases := Suc (n_Releases (p_calls p)),
                                       n_Now := Suc (n_Now (p_calls p))\<rparr>\<rparr>)
         | Inl err \<Rightarrow>
             ([], p\<lparr>p_calls := (p_calls p)\<lparr>slept := slept (p_calls p) + VMProgressInterval env,
                                           n_VMInfos := Suc (n_VMInfos (p_calls p)),
                                           n_Releases := Suc (n_Releases (p_calls p))\<rparr>\<rparr>))
      else ([], p\<lparr>p_calls := (p_calls p)\<lparr>slept := slept (p_calls p) + VMProgressInterval env,
                                         n_VMInfos := Suc (n_VMInfos (p_calls p))\<rparr>\<rparr>))"
proof (cases "dep_VMInfos env (p_dep p) (n_VMInfos (p_calls p))")
  case (Pair vs err)
  with assms have "err \<noteq> None \<or> vs = []"
    by (simp add: no_instances_def)
  with Pair show ?thesis
    by (auto simp add: tick_def Sleep_def VMInfos_def len_def Releases_call_def Now_def
        split: sum.splits)
qed

lemma tick_instances:
  assumes "dep_VMInfos env (p_dep p) (n_VMInfos (p_calls p)) = (vs, None)" and "vs \<noteq> []"
  shows "tick env p =
     (if length vs \<le> count_done vs then
        ([Send \<lparr>State = [], Releases = 0, Total = int (length vs), Done = int (count_done vs),
                Duration = time_Sub (time_Now env (n_Now (p_calls p))) (p_start p)\<rparr>, Close],
         p\<lparr>p_total := int (length vs),
           p_calls := (p_calls p)\<lparr>slept := slept (p_calls p) + VMProgressInterval env,
                                 n_VMInfos := Suc (n_VMInfos (p_calls p)),
                                 n_Now := Suc (n_Now (p_calls p))\<rparr>,
           p_returned := True\<rparr>)
      else
        ([Send \<lparr>State = [], Releases = 0, Total = int (length vs), Done = int (count_done vs),
                Duration = time_Sub (time_Now env (n_Now (p_calls p))) (p_start p)\<rparr>],
         p\<lparr>p_total := int (length vs),
           p_calls := (p_calls p)\<lparr>slept := slept (p_calls p) + VMProgressInterval env,
                                 n_VMInfos := Suc (n_VMInfos (p_calls p)),
                                 n_Now := Suc (n_Now (p_calls p))\<rparr>\<rparr>))"
  using assms
  by (simp add: tick_def Sleep_def VMInfos_def len_def Now_def numDone_loop_acc Let_def)

lemma instances_cases:
  obtains "no_instances r" | vs where "r = (vs, None)" and "vs \<noteq> []"
  by (cases r) (auto simp: no_instances_def)

lemma observes_convergence_no_instances: "no_instances r \<Longrightarrow> \<not> observes_convergence r"
  by (auto simp: no_instances_def observes_convergence_def split: sum.splits)

lemma tick_returned:
  "p_returned (snd (tick env p)) =
     (p_returned p \<or> observes_convergence (dep_VMInfos env (p_dep p) (n_VMInfos (p_calls p))))"
proof (cases "dep_VMInfos env (p_dep p) (n_VMInfos (p_calls p))" rule: instances_cases)
  case 1
  then show ?thesis
    by (simp add: tick_no_instances observes_convergence_no_instances split: sum.splits)
next
  case (2 vs)
  then show ?thesis
    by (simp add: tick_instances observes_convergence_def)
qed

lemma tick_Close:
  "Close \<in> set (fst (tick env p)) =
     observes_convergence (dep_VMInfos env (p_dep p) (n_VMInfos (p_calls p)))"
proof (cases "dep_VMInfos env (p_dep p) (n_VMInfos (p_calls p))" rule: instances_cases)
  case 1
  then show ?thesis
    by (simp add: tick_no_instances observes_convergence_no_instances split: sum.splits)
next
  case (2 vs)
  then show ?thesis
    by (simp add: tick_instances observes_convergence_def)
qed

lemma tick_frame:
  "p_dep (snd (tick env p)) = p_dep p \<and>
   p_start (snd (tick env p)) = p_start p \<and>
   n_VMInfos (p_calls (snd (tick env p))) = Suc (n_VMInfos (p_calls p)) \<and>
   n_FindDeployment (p_calls (snd (tick env p))) = n_FindDeployment (p_calls p)"
proof (cases "dep_VMInfos env (p_dep p) (n_VMInfos (p_calls p))" rule: instances_cases)
  case 1
  then show ?thesis
    by (simp add: tick_no_instances split: sum.splits)
next
  case (2 vs)
  then show ?thesis
    by (simp add: tick_instances)
qed

lemma tick_events:
  assumes "e \<in> set (fst (tick env p))"
  shows "e = Close \<or> (\<exists>s. e = Send s \<and> State s = [] \<and> Done s \<le> Total s)"
proof (cases "dep_VMInfos env (p_dep p) (n_VMInfos (p_calls p))" rule: instances_cases)
  case 1
  with assms show ?thesis
    by (auto simp add: tick_no_instances split: sum.splits if_splits)
next
  case (2 vs)
  with assms show ?thesis
    by (auto simp add: tick_instances count_done_le split: if_splits)
qed

section \<open>The streaming query: the passes in sequence\<close>

lemma run_returned: "p_returned p \<Longrightarrow> run env n p = ([], p)"
  by (cases n) simp_all

text \<open>The passes can be read from the end: \<open>n + 1\<close> passes are \<open>n\<close> passes and one more.\<close>

lemma run_Suc_last:
  "run env (Suc n) p =
     (let (evs, p') = run env n p
      in if p_returned p' then (evs, p')
         else (let (evs', p'') = tick env p' in (evs @ evs', p'')))"
proof (induction n arbitrary: p)
  case 0
  show ?case by (simp split: prod.splits)
next
  case (Suc n)
  show ?case
  proof (cases "p_returned p")
    case True
    then show ?thesis by simp
  next
    case False
    obtain e1 p1 where t: "tick env p = (e1, p1)" by (cases "tick env p")
    have a: "run env (Suc (Suc n)) p = (e1 @ fst (run env (Suc n) p1), snd (run env (Suc n) p1))"
      by (subst run.simps(2)) (simp add: False t split_beta del: run.simps)
    have b: "run env (Suc n) p = (e1 @ fst (run env n p1), snd (run env n p1))"
      by (subst run.simps(2)) (simp add: False t split_beta del: run.simps)
    show ?thesis
      by (simp only: a b Suc.IH [of p1]) (simp add: split_beta Let_def del: run.simps)
  qed
qed

lemma run_frame:
  "p_dep (snd (run env n p)) = p_dep p \<and>
   p_start (snd (run env n p)) = p_start p \<and>
   n_FindDeployment (p_calls (snd (run env n p))) = n_FindDeployment (p_calls p)"
proof (induction n arbitrary: p)
  case 0
  show ?case by simp
next
  case (Suc n)
  show ?case
    using Suc.IH [of "snd (tick env p)"] tick_frame [of env p]
    by (simp add: split_beta)
qed

lemma run_n_VMInfos:
  "\<not> p_returned (snd (run env n p)) \<Longrightarrow>
   n_VMInfos (p_calls (snd (run env n p))) = n_VMInfos (p_calls p) + n"
proof (induction n)
  case 0
  show ?case by simp
next
  case (Suc n)
  let ?q = "snd (run env n p)"
  from Suc.prems have nr: "\<not> p_returned ?q"
    by (auto simp add: run_Suc_last split_beta simp del: run.simps split: if_splits)
  then have "snd (run env (Suc n) p) = snd (tick env ?q)"
    by (simp add: run_Suc_last split_beta del: run.simps)
  with Suc.IH [OF nr] tick_frame [of env ?q] show ?case by simp
qed

lemma run_events:
  "e \<in> set (fst (run env n p)) \<Longrightarrow>
   e = Close \<or> (\<exists>s. e = Send s \<and> State s = [] \<and> Done s \<le> Total s)"
proof (induction n arbitrary: p)
  case 0
  then show ?case by simp
next
  case (Suc n)
  then show ?case
    using tick_events [of e env p]
    by (auto simp add: split_beta split: if_splits)
qed

section \<open>The streaming query: the call and the producer it starts\<close>

lemma VMProgress_Some:
  assumes "VMProgress env name c = Some p"
  shows "\<not> p_returned p \<and> p_total p = 0 \<and> p_start p = time_Now env (n_Now c) \<and>
     n_VMInfos (p_calls p) = n_VMInfos c \<and>
     (\<exists>k. (\<forall>j<k. isl (dir_FindDeployment env (n_FindDeployment c + j) name)) \<and>
          dir_FindDeployment env (n_FindDeployment c + k) name = Inr (p_dep p) \<and>
          p_calls p = c\<lparr>n_FindDeployment := n_FindDeployment c + Suc k, n_Now := Suc (n_Now c)\<rparr>)"
proof -
  let ?c1 = "c\<lparr>n_Now := Suc (n_Now c)\<rparr>"
  from assms obtain dep c2 where
    loop: "FindDeployment_loop env name ?c1 = Some (dep, c2)" and
    p: "p = \<lparr>p_dep = dep, p_start = time_Now env (n_Now c), p_total = 0, p_calls = c2,
             p_returned = False\<rparr>"
    by (auto simp add: VMProgress_def Now_def split: option.splits)
  from FindDeployment_loop_Some [OF loop] obtain k where
    k: "(\<forall>j<k. isl (dir_FindDeployment env (n_FindDeployment ?c1 + j) name)) \<and>
        dir_FindDeployment env (n_FindDeployment ?c1 + k) name = Inr dep \<and>
        c2 = ?c1\<lparr>n_FindDeployment := n_FindDeployment ?c1 + Suc k\<rparr>" ..
  from k have "(\<forall>j<k. isl (dir_FindDeployment env (n_FindDeployment c + j) name)) \<and>
          dir_FindDeployment env (n_FindDeployment c + k) name = Inr (p_dep p) \<and>
          p_calls p = c\<lparr>n_FindDeployment := n_FindDeployment c + Suc k, n_Now := Suc (n_Now c)\<rparr>"
    by (simp add: p)
  then have "\<exists>k. (\<forall>j<k. isl (dir_FindDeployment env (n_FindDeployment c + j) name)) \<and>
          dir_FindDeployment env (n_FindDeployment c + k) name = Inr (p_dep p) \<and>
          p_calls p = c\<lparr>n_FindDeployment := n_FindDeployment c + Suc k, n_Now := Suc (n_Now c)\<rparr>" ..
  moreover from k have "n_VMInfos (p_calls p) = n_VMInfos c" by (simp add: p)
  ultimately show ?thesis by (simp add: p)
qed

lemma VMProgress_first:
  assumes "\<forall>j<k. isl (dir_FindDeployment env (n_FindDeployment c + j) name)"
    and "dir_FindDeployment env (n_FindDeployment c + k) name = Inr dep"
  shows "VMProgress env name c =
     Some \<lparr>p_dep = dep, p_start = time_Now env (n_Now c), p_total = 0,
           p_calls = c\<lparr>n_FindDeployment := n_FindDeployment c + Suc k, n_Now := Suc (n_Now c)\<rparr>,
           p_returned = False\<rparr>"
proof -
  let ?c1 = "c\<lparr>n_Now := Suc (n_Now c)\<rparr>"
  have "FindDeployment_loop env name ?c1 =
      Some (dep, ?c1\<lparr>n_FindDeployment := n_FindDeployment ?c1 + Suc k\<rparr>)"
    using assms by (intro FindDeployment_loop_first) simp_all
  then show ?thesis
    by (simp add: VMProgress_def Now_def)
qed

text \<open>
  The producer has returned after \<open>n\<close> passes exactly when one of them observed
  convergence.
\<close>

lemma run_returned_iff:
  assumes "\<not> p_returned p"
  shows "p_returned (snd (run env n p)) =
     (\<exists>k<n. observes_convergence (dep_VMInfos env (p_dep p) (n_VMInfos (p_calls p) + k)))"
proof (induction n)
  case 0
  with assms show ?case by simp
next
  case (Suc n)
  let ?q = "snd (run env n p)"
  show ?case
  proof (cases "p_returned ?q")
    case True
    then have "p_returned (snd (run env (Suc n) p))"
      by (simp add: run_Suc_last split_beta del: run.simps)
    moreover from True Suc.IH have
      "\<exists>k<Suc n. observes_convergence (dep_VMInfos env (p_dep p) (n_VMInfos (p_calls p) + k))"
      using less_Suc_eq by blast
    ultimately show ?thesis by simp
  next
    case False
    then have "snd (run env (Suc n) p) = snd (tick env ?q)"
      by (simp add: run_Suc_last split_beta del: run.simps)
    then have "p_returned (snd (run env (Suc n) p)) =
        observes_convergence (dep_VMInfos env (p_dep p) (n_VMInfos (p_calls p) + n))"
      using False run_frame [of env n p] run_n_VMInfos [OF False]
      by (simp add: tick_returned)
    moreover from False Suc.IH have
      "\<not> (\<exists>k<n. observes_convergence (dep_VMInfos env (p_dep p) (n_VMInfos (p_calls p) + k)))"
      by simp
    ultimately show ?thesis
      using less_Suc_eq by auto
  qed
qed

lemma run_Close_iff:
  assumes "\<not> p_returned p"
  shows "(Close \<in> set (fst (run env n p))) = p_returned (snd (run env n p))"
proof (induction n)
  case 0
  with assms show ?case by simp
next
  case (Suc n)
  let ?q = "snd (run env n p)"
  show ?case
  proof (cases "p_returned ?q")
    case True
    then have "run env (Suc n) p = run env n p"
      by (simp add: run_Suc_last split_beta del: run.simps)
    with Suc.IH show ?thesis by (simp del: run.simps)
  next
    case False
    then have "run env (Suc n) p = (fst (run env n p) @ fst (tick env ?q), snd (tick env ?q))"
      by (simp add: run_Suc_last split_beta del: run.simps)
    with False Suc.IH show ?thesis
      by (simp add: tick_returned tick_Close del: run.simps)
  qed
qed

text \<open>The events of a producer that has returned end with the final snapshot and the close.\<close>

lemma run_returned_events:
  assumes "\<not> p_returned p" and "p_returned (snd (run env n p))"
  shows "\<exists>pre vs t k. fst (run env n p) =
        pre @ [Send \<lparr>State = [], Releases = 0, Total = int (length vs), Done = int (count_done vs),
                      Duration = t\<rparr>, Close] \<and>
      Close \<notin> set pre \<and> k < n \<and>
      dep_VMInfos env (p_dep p) (n_VMInfos (p_calls p) + k) = (vs, None) \<and>
      vs \<noteq> [] \<and> length vs \<le> count_done vs"
  using assms(2)
proof (induction n)
  case 0
  with assms(1) show ?case by simp
next
  case (Suc n)
  let ?q = "snd (run env n p)"
  show ?case
  proof (cases "p_returned ?q")
    case True
    then have same: "run env (Suc n) p = run env n p"
      by (simp add: run_Suc_last split_beta del: run.simps)
    from Suc.IH [OF True] obtain pre vs t k where
      "fst (run env n p) =
        pre @ [Send \<lparr>State = [], Releases = 0, Total = int (length vs), Done = int (count_done vs),
                      Duration = t\<rparr>, Close] \<and>
      Close \<notin> set pre \<and> k < n \<and>
      dep_VMInfos env (p_dep p) (n_VMInfos (p_calls p) + k) = (vs, None) \<and>
      vs \<noteq> [] \<and> length vs \<le> count_done vs" by blast
    then have "fst (run env (Suc n) p) =
        pre @ [Send \<lparr>State = [], Releases = 0, Total = int (length vs), Done = int (count_done vs),
                      Duration = t\<rparr>, Close] \<and>
      Close \<notin> set pre \<and> k < Suc n \<and>
      dep_VMInfos env (p_dep p) (n_VMInfos (p_calls p) + k) = (vs, None) \<and>
      vs \<noteq> [] \<and> length vs \<le> count_done vs"
      by (simp only: same) simp
    then show ?thesis by blast
  next
    case False
    let ?r = "dep_VMInfos env (p_dep ?q) (n_VMInfos (p_calls ?q))"
    have idx: "?r = dep_VMInfos env (p_dep p) (n_VMInfos (p_calls p) + n)"
      using run_frame [of env n p] run_n_VMInfos [OF False] by simp
    from False have step: "run env (Suc n) p = (fst (run env n p) @ fst (tick env ?q), snd (tick env ?q))"
      by (simp add: run_Suc_last split_beta del: run.simps)
    with Suc.prems False have conv: "observes_convergence ?r"
      by (simp add: tick_returned del: run.simps)
    then obtain vs where vs: "?r = (vs, None)" "vs \<noteq> []" "length vs \<le> count_done vs"
      by (cases ?r) (simp add: observes_convergence_def)
    have noclose: "Close \<notin> set (fst (run env n p))"
      using False run_Close_iff [OF assms(1), of env n] by simp
    from vs have "fst (tick env ?q) =
        [Send \<lparr>State = [], Releases = 0, Total = int (length vs), Done = int (count_done vs),
                Duration = time_Sub (time_Now env (n_Now (p_calls ?q))) (p_start ?q)\<rparr>, Close]"
      by (simp add: tick_instances)
    with step noclose vs idx have "fst (run env (Suc n) p) =
        fst (run env n p) @ [Send \<lparr>State = [], Releases = 0, Total = int (length vs), Done = int (count_done vs),
                      Duration = time_Sub (time_Now env (n_Now (p_calls ?q))) (p_start ?q)\<rparr>, Close] \<and>
      Close \<notin> set (fst (run env n p)) \<and> n < Suc n \<and>
      dep_VMInfos env (p_dep p) (n_VMInfos (p_calls p) + n) = (vs, None) \<and>
      vs \<noteq> [] \<and> length vs \<le> count_done vs"
      by (simp del: run.simps)
    then show ?thesis by blast
  qed
qed


section \<open>The first scenario, evaluated\<close>

lemma scenario_VMProgress:
  "VMProgress env_scenario ''cf'' calls0 = Some scenario_producer"
  using VMProgress_first [of 2 env_scenario calls0 "''cf''" "DeploymentHandle ''cf''"]
  by (simp add: env_scenario_def calls0_def scenario_producer_def)

lemmas scenario_eval =
  tick_def Sleep_def VMInfos_def Releases_call_def Now_def len_def
  env_scenario_def scenario_producer_def vm_running_def vm_starting_def
  time_Sub_def maxDuration_def minDuration_def

lemma scenario_run1:
  "run env_scenario (Suc 0) scenario_producer =
     ([], scenario_producer\<lparr>p_calls :=
        \<lparr>n_FindDeployment = 3, n_VMInfos = 1, n_Releases = 1, n_Now = 1, slept = 1000000000\<rparr>\<rparr>)"
  by (simp add: scenario_eval)

lemma scenario_run2:
  "run env_scenario (Suc (Suc 0)) scenario_producer =
     ([Send \<lparr>State = [], Releases = 2, Total = 0, Done = 0, Duration = 1000\<rparr>],
      scenario_producer\<lparr>p_calls :=
        \<lparr>n_FindDeployment = 3, n_VMInfos = 2, n_Releases = 2, n_Now = 2, slept = 2000000000\<rparr>\<rparr>)"
  by (simp add: scenario_eval)

lemma scenario_run4:
  "run env_scenario (Suc (Suc (Suc (Suc 0)))) scenario_producer =
     ([Send \<lparr>State = [], Releases = 2, Total = 0, Done = 0, Duration = 1000\<rparr>,
       Send \<lparr>State = [], Releases = 0, Total = 3, Done = 2, Duration = 2000\<rparr>,
       Send \<lparr>State = [], Releases = 0, Total = 2, Done = 2, Duration = 3000\<rparr>,
       Close],
      \<lparr>p_dep = DeploymentHandle ''cf'', p_start = 0, p_total = 2,
       p_calls = \<lparr>n_FindDeployment = 3, n_VMInfos = 4, n_Releases = 2, n_Now = 4,
                  slept = 4000000000\<rparr>,
       p_returned = True\<rparr>)"
  by (simp add: scenario_eval)

section \<open>The streaming query: what a session emits\<close>

text \<open>
  C2: on a session started by \<^verbatim>\<open>VMProgress\<close>, the goroutine has returned after \<open>n\<close>
  passes exactly when one of these passes observed an instance list that is not empty with
  done at least total; the stream holds a close exactly when the goroutine has returned;
  and then the events end with the snapshot of that list's counts followed by the close,
  with no close before.
\<close>

theorem VMProgress_closes_exactly_on_convergence:
  assumes "VMProgress env deploymentName c = Some p"
  shows "(p_returned (snd (run env n p)) \<longleftrightarrow>
           (\<exists>k<n. observes_convergence (dep_VMInfos env (p_dep p) (n_VMInfos c + k)))) \<and>
         (Close \<in> set (fst (run env n p)) \<longleftrightarrow> p_returned (snd (run env n p))) \<and>
         (p_returned (snd (run env n p)) \<longrightarrow>
           (\<exists>pre vs t k.
              fst (run env n p) =
                pre @ [Send \<lparr>State = [], Releases = 0, Total = int (length vs),
                              Done = int (count_done vs), Duration = t\<rparr>, Close] \<and>
              Close \<notin> set pre \<and> k < n \<and>
              dep_VMInfos env (p_dep p) (n_VMInfos c + k) = (vs, None) \<and>
              vs \<noteq> [] \<and> length vs \<le> count_done vs))"
proof -
  from VMProgress_Some [OF assms] have nr: "\<not> p_returned p"
    and idx: "n_VMInfos (p_calls p) = n_VMInfos c"
    by simp_all
  show ?thesis
    using run_returned_iff [OF nr, of env n] run_Close_iff [OF nr, of env n]
      run_returned_events [OF nr, of env n]
    by (simp only: idx) blast
qed

text \<open>
  On the first scenario the stream is still open after two passes and closes at the fourth,
  whose instance list holds two instances that are both done.
\<close>

theorem VMProgress_closes_exactly_on_convergence_witness:
  "VMProgress env_scenario ''cf'' calls0 = Some scenario_producer \<and>
   p_returned (snd (run env_scenario (Suc (Suc (Suc (Suc 0)))) scenario_producer)) \<and>
   observes_convergence (dep_VMInfos env_scenario (p_dep scenario_producer) (n_VMInfos calls0 + 3)) \<and>
   \<not> p_returned (snd (run env_scenario (Suc (Suc 0)) scenario_producer)) \<and>
   Close \<notin> set (fst (run env_scenario (Suc (Suc 0)) scenario_producer)) \<and>
   fst (run env_scenario (Suc (Suc (Suc (Suc 0)))) scenario_producer) =
     [Send \<lparr>State = [], Releases = 2, Total = 0, Done = 0, Duration = 1000\<rparr>,
      Send \<lparr>State = [], Releases = 0, Total = 3, Done = 2, Duration = 2000\<rparr>] @
     [Send \<lparr>State = [], Releases = 0, Total = 2, Done = 2, Duration = 3000\<rparr>, Close]"
proof -
  note thm4 = VMProgress_closes_exactly_on_convergence [OF scenario_VMProgress,
      of "Suc (Suc (Suc (Suc 0)))"]
  note thm2 = VMProgress_closes_exactly_on_convergence [OF scenario_VMProgress,
      of "Suc (Suc 0)"]
  have conv: "observes_convergence
      (dep_VMInfos env_scenario (p_dep scenario_producer) (n_VMInfos calls0 + 3))"
    by (simp add: observes_convergence_def count_done_def instance_done_def env_scenario_def
        vm_running_def)
  have open2: "\<not> p_returned (snd (run env_scenario (Suc (Suc 0)) scenario_producer))"
    by (simp only: scenario_run2) (simp add: scenario_producer_def)
  from thm4 conv have "p_returned (snd (run env_scenario (Suc (Suc (Suc (Suc 0)))) scenario_producer))"
    by (metis lessI less_Suc_eq numeral_3_eq_3)
  moreover from thm2 open2 have "Close \<notin> set (fst (run env_scenario (Suc (Suc 0)) scenario_producer))"
    by blast
  ultimately show ?thesis
    using scenario_VMProgress conv open2 by (simp del: run.simps add: scenario_run4)
qed

text \<open>
  C5: the stream carries snapshots and the close only (the channel's element type is
  \<^verbatim>\<open>VMProgress\<close>, which has no error component), whatever the director answers. A pass
  whose instance list request fails or returns an empty list adds to the stream either
  one snapshot that carries the release count (when no instance has been seen yet and the
  release query succeeds) or nothing, and the goroutine goes on to the next pass.
\<close>

theorem failed_tick_emits_no_error:
  assumes "VMProgress env deploymentName c = Some p"
    and "\<not> p_returned (snd (run env n p))"
    and "no_instances (dep_VMInfos env (p_dep p) (n_VMInfos c + n))"
  shows "(let q = snd (run env n p)
          in fst (run env (Suc n) p) =
               fst (run env n p) @
               (if p_total q = 0 then
                  (case dir_Releases env (n_Releases (p_calls q)) of
                     Inr rels \<Rightarrow>
                       [Send \<lparr>State = [], Releases = int (length rels), Total = 0, Done = 0,
                               Duration = time_Sub (time_Now env (n_Now (p_calls q))) (p_start p)\<rparr>]
                   | Inl err \<Rightarrow> [])
                else [])) \<and>
         \<not> p_returned (snd (run env (Suc n) p))"
proof -
  let ?q = "snd (run env n p)"
  from VMProgress_Some [OF assms(1)] have idx: "n_VMInfos (p_calls p) = n_VMInfos c"
    by simp
  have frame: "p_dep ?q = p_dep p" "p_start ?q = p_start p"
    using run_frame [of env n p] by simp_all
  have "n_VMInfos (p_calls ?q) = n_VMInfos c + n"
    using run_n_VMInfos [OF assms(2)] idx by simp
  with assms(3) frame have ni: "no_instances (dep_VMInfos env (p_dep ?q) (n_VMInfos (p_calls ?q)))"
    by simp
  from assms(2) have step: "run env (Suc n) p = (fst (run env n p) @ fst (tick env ?q), snd (tick env ?q))"
    by (simp add: run_Suc_last split_beta del: run.simps)
  have "\<not> p_returned (snd (tick env ?q))"
    using assms(2) ni by (simp add: tick_returned observes_convergence_no_instances)
  moreover have "fst (tick env ?q) =
      (if p_total ?q = 0 then
         (case dir_Releases env (n_Releases (p_calls ?q)) of
            Inr rels \<Rightarrow>
              [Send \<lparr>State = [], Releases = int (length rels), Total = 0, Done = 0,
                      Duration = time_Sub (time_Now env (n_Now (p_calls ?q))) (p_start p)\<rparr>]
          | Inl err \<Rightarrow> [])
       else [])"
    by (simp add: tick_no_instances [OF ni] frame split: sum.splits)
  ultimately show ?thesis
    by (simp only: step Let_def fst_conv snd_conv) simp
qed

text \<open>
  The second pass of the first scenario: an empty instance list, two releases.
\<close>

theorem failed_tick_emits_no_error_witness:
  "VMProgress env_scenario ''cf'' calls0 = Some scenario_producer \<and>
   no_instances (dep_VMInfos env_scenario (p_dep scenario_producer) (n_VMInfos calls0 + Suc 0)) \<and>
   fst (run env_scenario (Suc (Suc 0)) scenario_producer) =
     [Send \<lparr>State = [], Releases = 2, Total = 0, Done = 0, Duration = 1000\<rparr>] \<and>
   \<not> p_returned (snd (run env_scenario (Suc (Suc 0)) scenario_producer))"
proof -
  have open1: "\<not> p_returned (snd (run env_scenario (Suc 0) scenario_producer))"
    by (simp only: scenario_run1) (simp add: scenario_producer_def)
  have ni: "no_instances
      (dep_VMInfos env_scenario (p_dep scenario_producer) (n_VMInfos calls0 + Suc 0))"
    by (simp add: no_instances_def env_scenario_def calls0_def)
  from failed_tick_emits_no_error [OF scenario_VMProgress open1 ni]
  show ?thesis
    using scenario_VMProgress ni
    by (simp only: scenario_run1 Let_def fst_conv snd_conv)
      (simp add: scenario_producer_def env_scenario_def time_Sub_def maxDuration_def
        minDuration_def)
qed

section \<open>Every snapshot\<close>

lemma numDone_loop_empty: "len vs = 0 \<Longrightarrow> numDone_loop vs 0 = 0"
  by (simp add: len_def)

lemma GetVMProgress_snapshot:
  assumes "GetVMProgress env start deploymentName isErrand c = Some (s, c')"
  shows "Done s \<le> Total s \<and> State s \<in> {''uploading-releases'', ''deploying'', ''running-errand''}"
  using assms
  by (auto simp add: numDone_loop_le numDone_loop_empty GetVMProgress_def deploying_snapshot_def Now_def VMInfos_def
      Releases_call_def UploadingReleases_def Deploying_def RunningErrand_def Let_def
      split: if_splits option.splits sum.splits prod.splits)

text \<open>
  C6: every snapshot that \<^verbatim>\<open>GetVMProgress\<close> returns and every snapshot sent on a stream
  has done at most total.
\<close>

theorem done_never_exceeds_total:
  "(GetVMProgress env start deploymentName isErrand c = Some (s, c') \<longrightarrow> Done s \<le> Total s) \<and>
   (\<forall>e\<in>set (fst (run env n p)). \<forall>s. e = Send s \<longrightarrow> Done s \<le> Total s)"
  using GetVMProgress_snapshot [of env start deploymentName isErrand c s c'] run_events [of _ env n p]
  by blast

text \<open>
  The three instances of the first scenario, two of them done, in both queries.
\<close>

theorem done_never_exceeds_total_witness:
  "GetVMProgress env_scenario 500 ''cf'' False (calls0\<lparr>n_VMInfos := 2\<rparr>) =
     Some (\<lparr>State = ''deploying'', Releases = 0, Total = 3, Done = 2, Duration = - 500\<rparr>,
           \<lparr>n_FindDeployment = 3, n_VMInfos = 3, n_Releases = 0, n_Now = 1, slept = 0\<rparr>) \<and>
   Done \<lparr>State = ''deploying'', Releases = 0, Total = 3, Done = 2, Duration = - 500\<rparr> \<le>
     Total \<lparr>State = ''deploying'', Releases = 0, Total = 3, Done = 2, Duration = - 500\<rparr> \<and>
   Send \<lparr>State = [], Releases = 0, Total = 3, Done = 2, Duration = 2000\<rparr>
     \<in> set (fst (run env_scenario (Suc (Suc (Suc (Suc 0)))) scenario_producer)) \<and>
   Done \<lparr>State = [], Releases = 0, Total = 3, Done = 2, Duration = 2000\<rparr> \<le>
     Total \<lparr>State = [], Releases = 0, Total = 3, Done = 2, Duration = 2000\<rparr>"
proof -
  have g: "GetVMProgress env_scenario 500 ''cf'' False (calls0\<lparr>n_VMInfos := 2\<rparr>) =
     Some (\<lparr>State = ''deploying'', Releases = 0, Total = 3, Done = 2, Duration = - 500\<rparr>,
           \<lparr>n_FindDeployment = 3, n_VMInfos = 3, n_Releases = 0, n_Now = 1, slept = 0\<rparr>)"
    using GetVMProgress_resolved [of 2 env_scenario "calls0\<lparr>n_VMInfos := 2\<rparr>" "''cf''"
        "DeploymentHandle ''cf''" 500]
    by (simp add: env_scenario_def calls0_def vm_running_def vm_starting_def time_Sub_def
        maxDuration_def minDuration_def VMInfos_def len_def deploying_snapshot_def
        Now_def Deploying_def)
  have m: "Send \<lparr>State = [], Releases = 0, Total = 3, Done = 2, Duration = 2000\<rparr>
     \<in> set (fst (run env_scenario (Suc (Suc (Suc (Suc 0)))) scenario_producer))"
    by (simp only: scenario_run4) simp
  note t = done_never_exceeds_total [of env_scenario 500 "''cf''" False "calls0\<lparr>n_VMInfos := 2\<rparr>"
      "\<lparr>State = ''deploying'', Releases = 0, Total = 3, Done = 2, Duration = - 500\<rparr>"
      "\<lparr>n_FindDeployment = 3, n_VMInfos = 3, n_Releases = 0, n_Now = 1, slept = 0\<rparr>"
      "Suc (Suc (Suc (Suc 0)))" scenario_producer]
  from t g have "Done \<lparr>State = ''deploying'', Releases = 0, Total = 3, Done = 2, Duration = - 500\<rparr> \<le>
     Total \<lparr>State = ''deploying'', Releases = 0, Total = 3, Done = 2, Duration = - 500\<rparr>"
    by blast
  moreover from t m have "Done \<lparr>State = [], Releases = 0, Total = 3, Done = 2, Duration = 2000\<rparr> \<le>
     Total \<lparr>State = [], Releases = 0, Total = 3, Done = 2, Duration = 2000\<rparr>"
    by blast
  ultimately show ?thesis using g m by blast
qed



section \<open>The streaming query: who resolves the deployment\<close>

lemma env_never_VMProgress: "VMProgress env_never ''cf'' calls0 = None"
proof -
  have "FindDeployment_loop env_never ''cf'' (calls0\<lparr>n_Now := Suc (n_Now calls0)\<rparr>) = None"
    by (rule FindDeployment_loop_None) (simp add: env_never_def)
  then show ?thesis by (simp add: VMProgress_def Now_def)
qed

text \<open>
  C9 as stated has the goroutine resolve the deployment, so that the call returns its
  channel without waiting. The busy-poll of lines 72 to 78 stands before the \<^verbatim>\<open>go\<close>
  statement: on the first scenario the calling context has made three lookups when the
  call returns, and on a director that never knows the deployment the call does not return.
\<close>

theorem VMProgress_background_resolution_counterexample:
  "map_option (n_FindDeployment \<circ> p_calls) (VMProgress env_scenario ''cf'' calls0) = Some 3 \<and>
   n_FindDeployment calls0 = 0 \<and>
   VMProgress env_never ''cf'' calls0 = None"
proof -
  have "n_FindDeployment calls0 = 0" by (simp add: calls0_def)
  then show ?thesis
    by (simp add: scenario_VMProgress env_never_VMProgress scenario_producer_def)
qed

text \<open>
  C9, amended: the calling context resolves the deployment handle by busy-polling
  \<^verbatim>\<open>FindDeployment\<close> before the channel and the goroutine exist. The call returns exactly
  when some lookup succeeds, having made one lookup for every failure before the first
  success and one for the success, and the goroutine makes no lookup in any pass.
\<close>

theorem VMProgress_resolves_in_caller:
  "(VMProgress env deploymentName c = Some p \<longrightarrow>
      (\<exists>k. (\<forall>j<k. isl (dir_FindDeployment env (n_FindDeployment c + j) deploymentName)) \<and>
           dir_FindDeployment env (n_FindDeployment c + k) deploymentName = Inr (p_dep p) \<and>
           n_FindDeployment (p_calls p) = n_FindDeployment c + Suc k) \<and>
      n_FindDeployment (p_calls (snd (run env n p))) = n_FindDeployment (p_calls p)) \<and>
   (VMProgress env deploymentName c \<noteq> None \<longleftrightarrow>
      (\<exists>k. \<not> isl (dir_FindDeployment env (n_FindDeployment c + k) deploymentName)))"
proof (intro conjI impI)
  assume some: "VMProgress env deploymentName c = Some p"
  from VMProgress_Some [OF some] obtain k where
    "(\<forall>j<k. isl (dir_FindDeployment env (n_FindDeployment c + j) deploymentName)) \<and>
     dir_FindDeployment env (n_FindDeployment c + k) deploymentName = Inr (p_dep p) \<and>
     p_calls p = c\<lparr>n_FindDeployment := n_FindDeployment c + Suc k, n_Now := Suc (n_Now c)\<rparr>"
    by blast
  then have "(\<forall>j<k. isl (dir_FindDeployment env (n_FindDeployment c + j) deploymentName)) \<and>
     dir_FindDeployment env (n_FindDeployment c + k) deploymentName = Inr (p_dep p) \<and>
     n_FindDeployment (p_calls p) = n_FindDeployment c + Suc k"
    by simp
  then show "\<exists>k. (\<forall>j<k. isl (dir_FindDeployment env (n_FindDeployment c + j) deploymentName)) \<and>
           dir_FindDeployment env (n_FindDeployment c + k) deploymentName = Inr (p_dep p) \<and>
           n_FindDeployment (p_calls p) = n_FindDeployment c + Suc k" ..
next
  show "n_FindDeployment (p_calls (snd (run env n p))) = n_FindDeployment (p_calls p)"
    using run_frame [of env n p] by simp
next
  show "VMProgress env deploymentName c \<noteq> None \<longleftrightarrow>
      (\<exists>k. \<not> isl (dir_FindDeployment env (n_FindDeployment c + k) deploymentName))"
  proof
    assume "VMProgress env deploymentName c \<noteq> None"
    then obtain q where "VMProgress env deploymentName c = Some q" by auto
    from VMProgress_Some [OF this] obtain k where
      "dir_FindDeployment env (n_FindDeployment c + k) deploymentName = Inr (p_dep q)"
      by blast
    then have "\<not> isl (dir_FindDeployment env (n_FindDeployment c + k) deploymentName)" by simp
    then show "\<exists>k. \<not> isl (dir_FindDeployment env (n_FindDeployment c + k) deploymentName)" ..
  next
    let ?ok = "\<lambda>k. \<not> isl (dir_FindDeployment env (n_FindDeployment c + k) deploymentName)"
    assume "\<exists>k. ?ok k"
    then have least: "?ok (LEAST k. ?ok k)" by (rule LeastI_ex)
    then obtain dep where
      dep: "dir_FindDeployment env (n_FindDeployment c + (LEAST k. ?ok k)) deploymentName = Inr dep"
      by (cases "dir_FindDeployment env (n_FindDeployment c + (LEAST k. ?ok k)) deploymentName") auto
    have before: "\<forall>j<LEAST k. ?ok k. isl (dir_FindDeployment env (n_FindDeployment c + j) deploymentName)"
      using not_less_Least by blast
    from VMProgress_first [OF before dep] show "VMProgress env deploymentName c \<noteq> None"
      by simp
  qed
qed

text \<open>
  The first scenario: the third lookup succeeds, and four passes add none.
\<close>

theorem VMProgress_resolves_in_caller_witness:
  "VMProgress env_scenario ''cf'' calls0 = Some scenario_producer \<and>
   n_FindDeployment (p_calls scenario_producer) = n_FindDeployment calls0 + 3 \<and>
   n_FindDeployment (p_calls (snd (run env_scenario (Suc (Suc (Suc (Suc 0)))) scenario_producer))) = 3 \<and>
   \<not> isl (dir_FindDeployment env_scenario (n_FindDeployment calls0 + 2) ''cf'')"
proof -
  note t = VMProgress_resolves_in_caller [of env_scenario "''cf''" calls0 scenario_producer
      "Suc (Suc (Suc (Suc 0)))"]
  have a: "n_FindDeployment (p_calls scenario_producer) = n_FindDeployment calls0 + 3"
    by (simp add: scenario_producer_def calls0_def)
  from t scenario_VMProgress have
    "n_FindDeployment (p_calls (snd (run env_scenario (Suc (Suc (Suc (Suc 0)))) scenario_producer))) =
       n_FindDeployment (p_calls scenario_producer)"
    by blast
  then have b: "n_FindDeployment (p_calls (snd (run env_scenario (Suc (Suc (Suc (Suc 0)))) scenario_producer))) = 3"
    by (simp only: a) (simp add: calls0_def)
  have c: "\<not> isl (dir_FindDeployment env_scenario (n_FindDeployment calls0 + 2) ''cf'')"
    by (simp add: env_scenario_def calls0_def)
  from a b c scenario_VMProgress show ?thesis by blast
qed

section \<open>The supervisor: starting a machine that does not exist\<close>

text \<open>
  C8: for a name that does not exist in the hypervisor, \<^verbatim>\<open>Start\<close> fails with
  \<^verbatim>\<open>NotFoundError\<close> and the message \<^verbatim>\<open>hyperv vm with name <name> does not exist\<close>,
  after a single start command: the failure is not retried.
\<close>

theorem Start_absent_NotFoundError:
  "vms hv name = None \<Longrightarrow>
   Start name hv =
     (Inl (NotFoundError (''hyperv vm with name '' @ name @ '' does not exist'')),
      hv\<lparr>issued := issued hv @ [cmd_start name]\<rparr>)"
  by (simp add: Start_def hv_start_def)

text \<open>
  A hypervisor that holds another machine only.
\<close>

theorem Start_absent_NotFoundError_witness:
  "vms hv_other ''cfdev'' = None \<and>
   Start ''cfdev'' hv_other =
     (Inl (NotFoundError ''hyperv vm with name cfdev does not exist''),
      \<lparr>vms = [''other-vm'' \<mapsto> off], issued = [cmd_start ''cfdev'']\<rparr>)"
proof -
  have h: "vms hv_other ''cfdev'' = None" by (simp add: hv_other_def)
  from Start_absent_NotFoundError [OF h] h show ?thesis
    by (simp add: hv_other_def)
qed

end
